theory Spec2Isabelle
  imports Complex_Main
begin

section \<open>Values of the host language\<close>

text \<open>
  The form library is TypeScript. Its form data holds strings, numbers and booleans, and
  the code tests values against \<open>null\<close> and relies on a missing property reading as
  \<open>undefined\<close>, so both are values of the model.

  A number is written \<open>Fin q\<close> for the Number value of the real \<open>q\<close>, besides
  \<open>NaN\<close> and the two infinities (\<open>Infinity True\<close> is the positive one). The rounding of
  \<open>q\<close> to a binary64 float and the sign of zero are not represented.
\<close>

datatype jsnum = NaN | Fin rat | Infinity bool

text \<open>
  Every plain object inherits the members of \<open>Object.prototype\<close> (\<open>toString\<close>,
  \<open>constructor\<close> and the others listed with \<open>inheritedMember\<close> below), and reading such
  a name from an object that has no property of its own under it yields the inherited
  member. These members are functions (for \<open>__proto__\<close>, the prototype object); the
  value \<open>VBuiltin n\<close> is the member named \<open>n\<close>. It is an object: neither null nor
  undefined, truthy, and \<open>Number\<close> of it is NaN.
\<close>

datatype jsval = VUndefined | VNull | VBool bool | VNum jsnum | VStr string | VBuiltin string

text \<open>\<open>v == null\<close>: loose equality with null holds for null and undefined only.\<close>

definition nullish :: "jsval \<Rightarrow> bool" where
  "nullish v = (v = VUndefined \<or> v = VNull)"

text \<open>ToBoolean, used by \<open>&&\<close> and \<open>if\<close>.\<close>

fun truthy :: "jsval \<Rightarrow> bool" where
  "truthy VUndefined = False"
| "truthy VNull = False"
| "truthy (VBool b) = b"
| "truthy (VNum n) = (n \<noteq> NaN \<and> n \<noteq> Fin 0)"
| "truthy (VStr s) = (s \<noteq> [])"
| "truthy (VBuiltin n) = True"

subsection \<open>The built-in conversion \<open>Number(v)\<close>\<close>

text \<open>
  \<open>parseNumbers\<close> calls the built-in \<open>Number\<close>. On a string it trims white space,
  reads the empty string as 0, a signed decimal literal (with optional fraction and
  exponent) or \<open>Infinity\<close> as its value, an unsigned \<open>0x\<close>, \<open>0o\<close> or \<open>0b\<close>
  literal in its radix, and anything else as NaN. Strings are lists of 8-bit characters
  here, so only the white space characters below 256 occur.
\<close>

definition isStrWhiteSpaceChar :: "char \<Rightarrow> bool" where
  "isStrWhiteSpaceChar c = (of_char c \<in> {9, 10, 11, 12, 13, 32, 160 :: nat})"

definition trimString :: "string \<Rightarrow> string" where
  "trimString s = rev (dropWhile isStrWhiteSpaceChar (rev (dropWhile isStrWhiteSpaceChar s)))"

definition isDecimalDigit :: "char \<Rightarrow> bool" where
  "isDecimalDigit c = (48 \<le> (of_char c :: nat) \<and> (of_char c :: nat) \<le> 57)"

text \<open>The value of a digit in radix up to 16; 16 for a character that is no digit.\<close>

definition digitValue :: "char \<Rightarrow> nat" where
  "digitValue c =
     (let n = (of_char c :: nat) in
      if 48 \<le> n \<and> n \<le> 57 then n - 48
      else if 97 \<le> n \<and> n \<le> 102 then n - 87
      else if 65 \<le> n \<and> n \<le> 70 then n - 55
      else 16)"

definition digitsValue :: "nat \<Rightarrow> string \<Rightarrow> nat" where
  "digitsValue radix ds = foldl (\<lambda>acc c. acc * radix + digitValue c) 0 ds"

definition nonDecimalLiteral :: "nat \<Rightarrow> string \<Rightarrow> jsnum" where
  "nonDecimalLiteral radix ds =
     (if ds \<noteq> [] \<and> list_all (\<lambda>c. digitValue c < radix) ds
      then Fin (of_nat (digitsValue radix ds)) else NaN)"

text \<open>An optional sign in front: whether it is a minus, and the rest.\<close>

fun stripSign :: "string \<Rightarrow> bool \<times> string" where
  "stripSign [] = (False, [])"
| "stripSign (c # r) =
     (if c = CHR ''-'' then (True, r) else if c = CHR ''+'' then (False, r) else (False, c # r))"

text \<open>The exponent part: absent (exponent 0), or \<open>e\<close> with a signed run of digits.\<close>

fun exponentPart :: "string \<Rightarrow> int option" where
  "exponentPart [] = Some 0"
| "exponentPart (c # r) =
     (if c = CHR ''e'' \<or> c = CHR ''E'' then
        (let (neg, ds) = stripSign r in
         if ds \<noteq> [] \<and> list_all isDecimalDigit ds
         then Some (if neg then - int (digitsValue 10 ds) else int (digitsValue 10 ds))
         else None)
      else None)"

definition scale10 :: "rat \<Rightarrow> int \<Rightarrow> rat" where
  "scale10 x e = (if 0 \<le> e then x * 10 ^ nat e else x / 10 ^ nat (- e))"

definition unsignedDecimalLiteral :: "bool \<Rightarrow> string \<Rightarrow> jsnum" where
  "unsignedDecimalLiteral neg u =
     (let ip = takeWhile isDecimalDigit u;
          r1 = dropWhile isDecimalDigit u;
          (fp, r2) = (case r1 of
                        [] \<Rightarrow> ([], [])
                      | c # r \<Rightarrow> if c = CHR ''.''
                                 then (takeWhile isDecimalDigit r, dropWhile isDecimalDigit r)
                                 else ([], r1))
      in if ip = [] \<and> fp = [] then NaN
         else case exponentPart r2 of
                None \<Rightarrow> NaN
              | Some e \<Rightarrow>
                  (let m = (of_nat (digitsValue 10 (ip @ fp)) :: rat)
                   in Fin (scale10 (if neg then - m else m) (e - int (length fp)))))"

definition StringToNumber :: "string \<Rightarrow> jsnum" where
  "StringToNumber str =
     (let s = trimString str in
      if s = [] then Fin 0
      else if take 2 s = ''0x'' \<or> take 2 s = ''0X'' then nonDecimalLiteral 16 (drop 2 s)
      else if take 2 s = ''0o'' \<or> take 2 s = ''0O'' then nonDecimalLiteral 8 (drop 2 s)
      else if take 2 s = ''0b'' \<or> take 2 s = ''0B'' then nonDecimalLiteral 2 (drop 2 s)
      else (let (neg, u) = stripSign s in
            if u = ''Infinity'' then Infinity (\<not> neg) else unsignedDecimalLiteral neg u))"

fun Number :: "jsval \<Rightarrow> jsnum" where
  "Number VUndefined = NaN"
| "Number VNull = Fin 0"
| "Number (VBool b) = Fin (if b then 1 else 0)"
| "Number (VNum n) = n"
| "Number (VStr s) = StringToNumber s"
| "Number (VBuiltin n) = NaN"

section \<open>Objects and the store\<close>

text \<open>
  Form data and form errors are plain objects: mappings from property names to values.
  The code mutates such objects in place and passes them around by reference, so the
  model keeps them in a store. The store is the list of the objects allocated so far, a
  reference is a position in it, and a new object goes to the end. An object of the
  store holds its own properties. All objects here are plain objects (object literals,
  spreads, and the data the caller supplies), so a read that finds no own property
  falls back on \<open>Object.prototype\<close>: it gives the inherited member for one of the
  names of \<open>inheritedMember\<close> and \<open>undefined\<close> for any other name. An assignment
  always stores an own property; the assignment to the special name \<open>__proto__\<close>, which
  the host language routes through an accessor, is outside the model.

  The submit callback belongs to the host application. Calling it is recorded in
  \<open>calls\<close>, with the reference it was handed.
\<close>

type_synonym ref = nat

type_synonym obj = "string \<rightharpoonup> jsval"

record world =
  heap :: "obj list"
  calls :: "ref list"

definition valid_ref :: "world \<Rightarrow> ref \<Rightarrow> bool" where
  "valid_ref w r = (r < length (heap w))"

definition obj_at :: "world \<Rightarrow> ref \<Rightarrow> obj" where
  "obj_at w r = heap w ! r"

text \<open>The property names of \<open>Object.prototype\<close>.\<close>

definition inheritedMember :: "string \<Rightarrow> bool" where
  "inheritedMember k =
     (k \<in> set [''constructor'', ''hasOwnProperty'', ''isPrototypeOf'', ''propertyIsEnumerable'',
               ''toLocaleString'', ''toString'', ''valueOf'', ''__defineGetter__'',
               ''__defineSetter__'', ''__lookupGetter__'', ''__lookupSetter__'', ''__proto__''])"

text \<open>\<open>obj[k]\<close>: the own property, else the inherited member, else \<open>undefined\<close>.\<close>

definition get_prop :: "world \<Rightarrow> ref \<Rightarrow> string \<Rightarrow> jsval" where
  "get_prop w r k =
     (case obj_at w r k of
        Some v \<Rightarrow> v
      | None \<Rightarrow> if inheritedMember k then VBuiltin k else VUndefined)"

definition set_prop :: "ref \<Rightarrow> string \<Rightarrow> jsval \<Rightarrow> world \<Rightarrow> world" where
  "set_prop r k v w = w\<lparr>heap := (heap w)[r := (obj_at w r)(k \<mapsto> v)]\<rparr>"

definition new_obj :: "obj \<Rightarrow> world \<Rightarrow> ref \<times> world" where
  "new_obj ob w = (length (heap w), w\<lparr>heap := heap w @ [ob]\<rparr>)"

definition invoke :: "ref \<Rightarrow> world \<Rightarrow> world" where
  "invoke arg w = w\<lparr>calls := calls w @ [arg]\<rparr>"

section \<open>The form types\<close>

text \<open>
  Modelled from the spec: the declarations of \<open>types/form\<close> (\<open>InputType\<close>,
  \<open>FieldOptions\<close>, \<open>FormLayout\<close>) are not among the sources. The spec gives a field
  descriptor an id, an input type out of STRING, NUMBER, BOOLEAN and others, a required
  flag and an optional default value. The other input types are \<open>OTHER\<close> with their
  name, a missing \<open>required\<close> is \<open>False\<close> (it is only tested for truth) and a missing
  \<open>defaultValue\<close> is \<open>VUndefined\<close>. The field \<open>id\<close> of the source is
  \<open>field_id\<close> here.
\<close>

datatype InputType = STRING | NUMBER | BOOLEAN | OTHER string

record FieldOptions =
  field_id :: string
  inputType :: InputType
  required :: bool
  defaultValue :: jsval

type_synonym FormLayout = "FieldOptions list"

record FormControlState =
  formData :: ref
  formErrors :: ref

section \<open>The reducer and its helpers\<close>

subsection \<open>generateDefaultFormData\<close>

text \<open>
  The value a field receives when the data has none: its declared default, and without
  one (\<open>defaultValue == null\<close>) \<open>false\<close> for a BOOLEAN field and \<open>""\<close> for any other.
\<close>

definition emptyOrDefault :: "FieldOptions \<Rightarrow> jsval" where
  "emptyOrDefault f =
     (if nullish (defaultValue f) then
        (if inputType f = BOOLEAN then VBool False else VStr [])
      else defaultValue f)"

text \<open>
  The body of the loop over the layout; \<open>fd\<close> refers to the object being filled
  (\<open>formData\<close> in the source). The guard \<open>formData[id] != null\<close> is an ordinary
  property read, so it also finds an inherited member.
\<close>

definition fillField :: "ref \<Rightarrow> FieldOptions \<Rightarrow> world \<Rightarrow> world" where
  "fillField fd f w =
     (if \<not> nullish (get_prop w fd (field_id f)) then w
      else set_prop fd (field_id f) (emptyOrDefault f) w)"

text \<open>
  \<open>defaultData || {}\<close>: the object supplied, itself and not a copy, or a new empty one.
  After the loop the value read under \<open>idKey\<close> is stored when the key is a non-empty
  string, data was supplied and that value is truthy. The object read and the object
  written are the same one, so this changes something only when the value read is an
  inherited member: it then becomes a property of the object itself.
\<close>

definition generateDefaultFormData ::
  "FormLayout \<Rightarrow> ref option \<Rightarrow> string option \<Rightarrow> world \<Rightarrow> ref \<times> world" where
  "generateDefaultFormData formLayout defaultData idKey w =
     (let (fd, w0) = (case defaultData of
                        Some d \<Rightarrow> (d, w)
                      | None \<Rightarrow> new_obj Map.empty w);
          w1 = fold (fillField fd) formLayout w0;
          w2 = (case (idKey, defaultData) of
                  (Some k, Some d) \<Rightarrow>
                    if k \<noteq> [] \<and> truthy (get_prop w1 d k)
                    then set_prop fd k (get_prop w1 d k) w1
                    else w1
                | _ \<Rightarrow> w1)
      in (fd, w2))"

subsection \<open>reset and changeField\<close>

definition reset :: "FormControlState \<Rightarrow> FormLayout \<Rightarrow> world \<Rightarrow> FormControlState \<times> world" where
  "reset state formLayout w =
     (let (fd, w1) = generateDefaultFormData formLayout None None w;
          (errs, w2) = new_obj Map.empty w1
      in (state\<lparr>formData := fd, formErrors := errs\<rparr>, w2))"

text \<open>The spread \<open>{...state.formData, [key]: value}\<close> builds a new object.\<close>

definition changeField ::
  "FormControlState \<Rightarrow> string \<Rightarrow> jsval \<Rightarrow> world \<Rightarrow> FormControlState \<times> world" where
  "changeField state key val w =
     (let (fd, w1) = new_obj ((obj_at w (formData state))(key \<mapsto> val)) w
      in (state\<lparr>formData := fd\<rparr>, w1))"

subsection \<open>checkData, parseNumbers and submit\<close>

definition checkField :: "ref \<Rightarrow> ref \<Rightarrow> FieldOptions \<Rightarrow> world \<Rightarrow> world" where
  "checkField data errors f w =
     (if (required f \<and> get_prop w data (field_id f) = VStr []) \<or>
         get_prop w data (field_id f) = VNull
      then set_prop errors (field_id f) (VStr ''Field is required'') w
      else w)"

definition checkData :: "ref \<Rightarrow> FormLayout \<Rightarrow> world \<Rightarrow> ref \<times> world" where
  "checkData data formLayout w =
     (let (errors, w0) = new_obj Map.empty w
      in (errors, fold (checkField data errors) formLayout w0))"

definition parseField :: "ref \<Rightarrow> ref \<Rightarrow> FieldOptions \<Rightarrow> world \<Rightarrow> world" where
  "parseField data parsedData f w =
     (if inputType f = NUMBER
      then set_prop parsedData (field_id f) (VNum (Number (get_prop w data (field_id f)))) w
      else w)"

definition parseNumbers :: "ref \<Rightarrow> FormLayout \<Rightarrow> world \<Rightarrow> ref \<times> world" where
  "parseNumbers data formLayout w =
     (let (parsedData, w0) = new_obj (obj_at w data) w
      in (parsedData, fold (parseField data parsedData) formLayout w0))"

text \<open>\<open>Object.keys(errors).length === 0\<close>: the errors object has no property.\<close>

definition submit :: "FormControlState \<Rightarrow> FormLayout \<Rightarrow> world \<Rightarrow> FormControlState \<times> world" where
  "submit state formLayout w =
     (let (errors, w1) = checkData (formData state) formLayout w;
          w2 = (if obj_at w1 errors = Map.empty
                then (let (parsed, w') = parseNumbers (formData state) formLayout w1
                      in invoke parsed w')
                else w1)
      in (state\<lparr>formErrors := errors\<rparr>, w2))"

subsection \<open>The reducer and the hook\<close>

text \<open>
  An action carries its tag in its constructor. The callback of a submit action is the
  recorded one. \<open>UnknownAction\<close> is any other tag: the reducer throws on it.
\<close>

datatype FormDataReducerAction =
    ResetAction FormLayout
  | SubmitAction FormLayout
  | ChangeFieldAction string jsval
  | UnknownAction string

datatype error = Error

fun reducer ::
  "FormControlState \<Rightarrow> FormDataReducerAction \<Rightarrow> world \<Rightarrow> error + FormControlState \<times> world" where
  "reducer state (ResetAction formLayout) w = Inr (reset state formLayout w)"
| "reducer state (SubmitAction formLayout) w = Inr (submit state formLayout w)"
| "reducer state (ChangeFieldAction key val) w = Inr (changeField state key val w)"
| "reducer state (UnknownAction tag) w = Inl Error"

text \<open>
  \<open>useFormControl\<close> builds the first state from the layout and the data it was given,
  and offers three operations, each dispatching one action built from the hook's own
  layout.
\<close>

definition useFormControl ::
  "FormLayout \<Rightarrow> ref option \<Rightarrow> string option \<Rightarrow> world \<Rightarrow> FormControlState \<times> world" where
  "useFormControl formLayout defaultData idKey w =
     (let (fd, w1) = generateDefaultFormData formLayout defaultData idKey w;
          (errs, w2) = new_obj Map.empty w1
      in (\<lparr>formData = fd, formErrors = errs\<rparr>, w2))"

datatype hookCall = CallReset | CallSubmit | CallChangeField string jsval

fun dispatched :: "FormLayout \<Rightarrow> hookCall \<Rightarrow> FormDataReducerAction" where
  "dispatched formLayout CallReset = ResetAction formLayout"
| "dispatched formLayout CallSubmit = SubmitAction formLayout"
| "dispatched formLayout (CallChangeField key val) = ChangeFieldAction key val"

text \<open>The state after a sequence of actions; a throw ends it.\<close>

fun reduceAll ::
  "FormDataReducerAction list \<Rightarrow> FormControlState \<times> world \<Rightarrow> error + FormControlState \<times> world" where
  "reduceAll [] sw = Inr sw"
| "reduceAll (a # as) sw =
     (case reducer (fst sw) a (snd sw) of
        Inl e \<Rightarrow> Inl e
      | Inr sw' \<Rightarrow> reduceAll as sw')"

definition runHook ::
  "FormLayout \<Rightarrow> ref option \<Rightarrow> string option \<Rightarrow> hookCall list \<Rightarrow> world
     \<Rightarrow> error + FormControlState \<times> world" where
  "runHook formLayout defaultData idKey cs w =
     reduceAll (map (dispatched formLayout) cs) (useFormControl formLayout defaultData idKey w)"

section \<open>Properties of the store and of the loops\<close>

subsection \<open>Store operations\<close>

lemma new_obj_fst [simp]: "fst (new_obj ob w) = length (heap w)"
  by (simp add: new_obj_def)

lemma new_obj_heap [simp]: "heap (snd (new_obj ob w)) = heap w @ [ob]"
  by (simp add: new_obj_def)

lemma new_obj_calls [simp]: "calls (snd (new_obj ob w)) = calls w"
  by (simp add: new_obj_def)

lemma obj_at_new_obj_old: "r < length (heap w) \<Longrightarrow> obj_at (snd (new_obj ob w)) r = obj_at w r"
  by (simp add: obj_at_def nth_append)

lemma obj_at_new_obj_new [simp]: "obj_at (snd (new_obj ob w)) (length (heap w)) = ob"
  by (simp add: obj_at_def)

lemma set_prop_length [simp]: "length (heap (set_prop r k v w)) = length (heap w)"
  by (simp add: set_prop_def)

lemma set_prop_calls [simp]: "calls (set_prop r k v w) = calls w"
  by (simp add: set_prop_def)

lemma obj_at_set_prop_same:
  "r < length (heap w) \<Longrightarrow> obj_at (set_prop r k v w) r = (obj_at w r)(k \<mapsto> v)"
  by (simp add: set_prop_def obj_at_def)

lemma obj_at_set_prop_other: "r' \<noteq> r \<Longrightarrow> obj_at (set_prop r k v w) r' = obj_at w r'"
  by (simp add: set_prop_def obj_at_def)

lemma emptyOrDefault_not_nullish [simp]: "\<not> nullish (emptyOrDefault f)"
  by (auto simp: emptyOrDefault_def nullish_def)

lemma get_prop_nullish_iff:
  "nullish (get_prop w r k) =
     ((obj_at w r k = None \<and> \<not> inheritedMember k) \<or>
      obj_at w r k = Some VUndefined \<or> obj_at w r k = Some VNull)"
  by (auto simp: get_prop_def nullish_def split: option.splits)

lemma get_prop_own: "obj_at w r k = Some v \<Longrightarrow> get_prop w r k = v"
  by (simp add: get_prop_def)

lemma get_prop_ordinary:
  "\<not> inheritedMember k \<Longrightarrow>
   get_prop w r k = (case obj_at w r k of None \<Rightarrow> VUndefined | Some v \<Rightarrow> v)"
  by (simp add: get_prop_def split: option.splits)

subsection \<open>fillField\<close>

lemma fillField_length [simp]: "length (heap (fillField fd f w)) = length (heap w)"
  by (simp add: fillField_def)

lemma fillField_calls [simp]: "calls (fillField fd f w) = calls w"
  by (simp add: fillField_def)

lemma fillField_other: "r \<noteq> fd \<Longrightarrow> obj_at (fillField fd f w) r = obj_at w r"
  by (simp add: fillField_def obj_at_set_prop_other)

lemma fillField_same:
  "fd < length (heap w) \<Longrightarrow>
   obj_at (fillField fd f w) fd k =
     (if k = field_id f \<and> nullish (get_prop w fd k) then Some (emptyOrDefault f) else obj_at w fd k)"
  by (auto simp: fillField_def obj_at_set_prop_same)

lemma fold_fillField_length [simp]: "length (heap (fold (fillField fd) L w)) = length (heap w)"
  by (induction L arbitrary: w) simp_all

lemma fold_fillField_calls [simp]: "calls (fold (fillField fd) L w) = calls w"
  by (induction L arbitrary: w) simp_all

lemma fold_fillField_other: "r \<noteq> fd \<Longrightarrow> obj_at (fold (fillField fd) L w) r = obj_at w r"
  by (induction L arbitrary: w) (simp_all add: fillField_other)

lemma fold_fillField_same:
  "fd < length (heap w) \<Longrightarrow>
   obj_at (fold (fillField fd) L w) fd k =
     (if \<not> nullish (get_prop w fd k) then obj_at w fd k
      else case find (\<lambda>f. field_id f = k) L of
             None \<Rightarrow> obj_at w fd k
           | Some f \<Rightarrow> Some (emptyOrDefault f))"
proof (induction L arbitrary: w)
  case Nil
  then show ?case by simp
next
  case (Cons f L)
  have len: "fd < length (heap (fillField fd f w))" using Cons.prems by simp
  have g: "get_prop (fillField fd f w) fd k =
     (if k = field_id f \<and> nullish (get_prop w fd k) then emptyOrDefault f else get_prop w fd k)"
    using Cons.prems by (auto simp: get_prop_def fillField_same)
  show ?case
    using Cons.IH [OF len] Cons.prems
    by (auto simp: g fillField_same split: option.splits)
qed


subsection \<open>generateDefaultFormData\<close>

lemma set_prop_same_value:
  "obj_at w r k = Some v \<Longrightarrow> set_prop r k v w = w"
  by (simp add: set_prop_def obj_at_def map_upd_triv)

lemma truthy_get_prop:
  "truthy (get_prop w r k) \<Longrightarrow> \<not> inheritedMember k \<Longrightarrow> obj_at w r k = Some (get_prop w r k)"
  by (auto simp: get_prop_def split: option.splits)

text \<open>The step after the loop, on the supplied object \<open>d\<close>.\<close>

lemma generateDefaultFormData_Some:
  "generateDefaultFormData L (Some d) idKey w =
     (d, case idKey of
           None \<Rightarrow> fold (fillField d) L w
         | Some k \<Rightarrow>
             if k \<noteq> [] \<and> truthy (get_prop (fold (fillField d) L w) d k)
             then set_prop d k (get_prop (fold (fillField d) L w) d k) (fold (fillField d) L w)
             else fold (fillField d) L w)"
  by (simp add: generateDefaultFormData_def Let_def split: option.splits)

lemma generateDefaultFormData_Some_length:
  "length (heap (snd (generateDefaultFormData L (Some d) idKey w))) = length (heap w)"
  by (simp add: generateDefaultFormData_Some split: option.splits)

lemma generateDefaultFormData_Some_other:
  "r \<noteq> d \<Longrightarrow> obj_at (snd (generateDefaultFormData L (Some d) idKey w)) r = obj_at w r"
  by (simp add: generateDefaultFormData_Some obj_at_set_prop_other fold_fillField_other
      split: option.splits)

lemma generateDefaultFormData_Some_ordinary:
  assumes "d < length (heap w)" and "\<not> inheritedMember k"
  shows "obj_at (snd (generateDefaultFormData L (Some d) idKey w)) d k =
         obj_at (fold (fillField d) L w) d k"
proof -
  let ?w1 = "fold (fillField d) L w"
  have d1: "d < length (heap ?w1)" using assms(1) by simp
  have "obj_at (set_prop d k' (get_prop ?w1 d k') ?w1) d k = obj_at ?w1 d k"
    if "truthy (get_prop ?w1 d k')" for k'
  proof (cases "k' = k")
    case True
    then have "obj_at ?w1 d k = Some (get_prop ?w1 d k)"
      using that assms(2) by (simp add: truthy_get_prop)
    then show ?thesis using True by (simp add: set_prop_same_value)
  next
    case False
    then show ?thesis using d1 by (simp add: obj_at_set_prop_same)
  qed
  then show ?thesis
    by (simp add: generateDefaultFormData_Some split: option.splits)
qed

lemma generateDefaultFormData_None:
  "generateDefaultFormData L None idKey w =
     (length (heap w), fold (fillField (length (heap w))) L (snd (new_obj Map.empty w)))"
  by (auto simp: generateDefaultFormData_def Let_def new_obj_def split: option.splits)

lemma get_prop_new_empty [simp]:
  "get_prop (snd (new_obj Map.empty w)) (length (heap w)) k =
     (if inheritedMember k then VBuiltin k else VUndefined)"
  by (simp add: get_prop_def)

subsection \<open>checkData\<close>

lemma checkField_length [simp]: "length (heap (checkField data errs f w)) = length (heap w)"
  by (simp add: checkField_def)

lemma checkField_calls [simp]: "calls (checkField data errs f w) = calls w"
  by (simp add: checkField_def)

lemma checkField_other: "r \<noteq> errs \<Longrightarrow> obj_at (checkField data errs f w) r = obj_at w r"
  by (simp add: checkField_def obj_at_set_prop_other)

lemma checkField_same:
  "errs < length (heap w) \<Longrightarrow>
   obj_at (checkField data errs f w) errs k =
     (if k = field_id f \<and>
         ((required f \<and> get_prop w data (field_id f) = VStr []) \<or>
          get_prop w data (field_id f) = VNull)
      then Some (VStr ''Field is required'') else obj_at w errs k)"
  by (auto simp: checkField_def obj_at_set_prop_same)

lemma fold_checkField_length [simp]:
  "length (heap (fold (checkField data errs) L w)) = length (heap w)"
  by (induction L arbitrary: w) simp_all

lemma fold_checkField_calls [simp]: "calls (fold (checkField data errs) L w) = calls w"
  by (induction L arbitrary: w) simp_all

lemma fold_checkField_other:
  "r \<noteq> errs \<Longrightarrow> obj_at (fold (checkField data errs) L w) r = obj_at w r"
  by (induction L arbitrary: w) (simp_all add: checkField_other)

lemma fold_checkField_same:
  "errs < length (heap w) \<Longrightarrow> data \<noteq> errs \<Longrightarrow>
   obj_at (fold (checkField data errs) L w) errs k =
     (if \<exists>f \<in> set L. field_id f = k \<and>
           ((required f \<and> get_prop w data k = VStr []) \<or> get_prop w data k = VNull)
      then Some (VStr ''Field is required'') else obj_at w errs k)"
proof (induction L arbitrary: w)
  case Nil
  then show ?case by simp
next
  case (Cons f L)
  have len: "errs < length (heap (checkField data errs f w))" using Cons.prems by simp
  have g: "get_prop (checkField data errs f w) data k = get_prop w data k"
    using Cons.prems by (simp add: get_prop_def checkField_other)
  show ?case
    using Cons.IH [OF len Cons.prems(2)] Cons.prems
    by (auto simp: g checkField_same)
qed

lemma checkData_eq:
  "checkData data L w =
     (length (heap w), fold (checkField data (length (heap w))) L (snd (new_obj Map.empty w)))"
  by (simp add: checkData_def new_obj_def)

lemma checkData_fst [simp]: "fst (checkData data L w) = length (heap w)"
  by (simp add: checkData_eq)

lemma checkData_length [simp]: "length (heap (snd (checkData data L w))) = Suc (length (heap w))"
  by (simp add: checkData_eq)

lemma checkData_calls [simp]: "calls (snd (checkData data L w)) = calls w"
  by (simp add: checkData_eq)

lemma checkData_old:
  "r < length (heap w) \<Longrightarrow> obj_at (snd (checkData data L w)) r = obj_at w r"
  by (simp add: checkData_eq fold_checkField_other obj_at_new_obj_old)

lemma checkData_errors:
  assumes "data < length (heap w)"
  shows "obj_at (snd (checkData data L w)) (length (heap w)) k =
     (if \<exists>f \<in> set L. field_id f = k \<and>
           ((required f \<and> get_prop w data k = VStr []) \<or> get_prop w data k = VNull)
      then Some (VStr ''Field is required'') else None)"
proof -
  let ?w0 = "snd (new_obj Map.empty w)"
  have g: "get_prop ?w0 data k = get_prop w data k"
    using assms by (simp add: get_prop_def obj_at_new_obj_old)
  have "obj_at (fold (checkField data (length (heap w))) L ?w0) (length (heap w)) k =
     (if \<exists>f \<in> set L. field_id f = k \<and>
           ((required f \<and> get_prop ?w0 data k = VStr []) \<or> get_prop ?w0 data k = VNull)
      then Some (VStr ''Field is required'') else obj_at ?w0 (length (heap w)) k)"
    using assms by (intro fold_checkField_same) simp_all
  then show ?thesis
    by (simp only: g checkData_eq snd_conv obj_at_new_obj_new)
qed

subsection \<open>parseNumbers\<close>

lemma parseField_length [simp]: "length (heap (parseField data p f w)) = length (heap w)"
  by (simp add: parseField_def)

lemma parseField_calls [simp]: "calls (parseField data p f w) = calls w"
  by (simp add: parseField_def)

lemma parseField_other: "r \<noteq> p \<Longrightarrow> obj_at (parseField data p f w) r = obj_at w r"
  by (simp add: parseField_def obj_at_set_prop_other)

lemma parseField_same:
  "p < length (heap w) \<Longrightarrow>
   obj_at (parseField data p f w) p k =
     (if k = field_id f \<and> inputType f = NUMBER
      then Some (VNum (Number (get_prop w data k))) else obj_at w p k)"
  by (auto simp: parseField_def obj_at_set_prop_same)

lemma fold_parseField_length [simp]:
  "length (heap (fold (parseField data p) L w)) = length (heap w)"
  by (induction L arbitrary: w) simp_all

lemma fold_parseField_calls [simp]: "calls (fold (parseField data p) L w) = calls w"
  by (induction L arbitrary: w) simp_all

lemma fold_parseField_other:
  "r \<noteq> p \<Longrightarrow> obj_at (fold (parseField data p) L w) r = obj_at w r"
  by (induction L arbitrary: w) (simp_all add: parseField_other)

lemma fold_parseField_same:
  "p < length (heap w) \<Longrightarrow> data \<noteq> p \<Longrightarrow>
   obj_at (fold (parseField data p) L w) p k =
     (if \<exists>f \<in> set L. field_id f = k \<and> inputType f = NUMBER
      then Some (VNum (Number (get_prop w data k))) else obj_at w p k)"
proof (induction L arbitrary: w)
  case Nil
  then show ?case by simp
next
  case (Cons f L)
  have len: "p < length (heap (parseField data p f w))" using Cons.prems by simp
  have g: "get_prop (parseField data p f w) data k = get_prop w data k"
    using Cons.prems by (simp add: get_prop_def parseField_other)
  show ?case
    using Cons.IH [OF len Cons.prems(2)] Cons.prems
    by (auto simp: g parseField_same)
qed

lemma parseNumbers_eq:
  "parseNumbers data L w =
     (length (heap w),
      fold (parseField data (length (heap w))) L (snd (new_obj (obj_at w data) w)))"
  by (simp add: parseNumbers_def new_obj_def)

lemma parseNumbers_fst [simp]: "fst (parseNumbers data L w) = length (heap w)"
  by (simp add: parseNumbers_eq)

lemma parseNumbers_length [simp]:
  "length (heap (snd (parseNumbers data L w))) = Suc (length (heap w))"
  by (simp add: parseNumbers_eq)

lemma parseNumbers_calls [simp]: "calls (snd (parseNumbers data L w)) = calls w"
  by (simp add: parseNumbers_eq)

lemma parseNumbers_old:
  "r < length (heap w) \<Longrightarrow> obj_at (snd (parseNumbers data L w)) r = obj_at w r"
  by (simp add: parseNumbers_eq fold_parseField_other obj_at_new_obj_old)

lemma parseNumbers_parsed:
  assumes "data < length (heap w)"
  shows "obj_at (snd (parseNumbers data L w)) (length (heap w)) k =
     (if \<exists>f \<in> set L. field_id f = k \<and> inputType f = NUMBER
      then Some (VNum (Number (get_prop w data k))) else obj_at w data k)"
proof -
  let ?w0 = "snd (new_obj (obj_at w data) w)"
  have g: "get_prop ?w0 data k = get_prop w data k"
    using assms by (simp add: get_prop_def obj_at_new_obj_old)
  have "obj_at (fold (parseField data (length (heap w))) L ?w0) (length (heap w)) k =
     (if \<exists>f \<in> set L. field_id f = k \<and> inputType f = NUMBER
      then Some (VNum (Number (get_prop ?w0 data k))) else obj_at ?w0 (length (heap w)) k)"
    using assms by (intro fold_parseField_same) simp_all
  then show ?thesis
    by (simp only: g parseNumbers_eq snd_conv obj_at_new_obj_new)
qed

subsection \<open>submit\<close>

lemma invoke_heap [simp]: "heap (invoke a w) = heap w"
  by (simp add: invoke_def)

lemma invoke_calls [simp]: "calls (invoke a w) = calls w @ [a]"
  by (simp add: invoke_def)

lemma obj_at_invoke [simp]: "obj_at (invoke a w) r = obj_at w r"
  by (simp add: obj_at_def)

lemma get_prop_invoke [simp]: "get_prop (invoke a w) r k = get_prop w r k"
  by (simp add: get_prop_def)

lemma submit_eq:
  "submit state L w =
     (state\<lparr>formErrors := length (heap w)\<rparr>,
      if obj_at (snd (checkData (formData state) L w)) (length (heap w)) = Map.empty
      then invoke (Suc (length (heap w)))
             (snd (parseNumbers (formData state) L (snd (checkData (formData state) L w))))
      else snd (checkData (formData state) L w))"
  by (simp add: submit_def split_def Let_def)

lemma submit_state:
  "fst (submit state L w) = state\<lparr>formErrors := length (heap w)\<rparr>"
  by (simp add: submit_eq)

lemma submit_old:
  "r < length (heap w) \<Longrightarrow> obj_at (snd (submit state L w)) r = obj_at w r"
  by (simp add: submit_eq parseNumbers_old checkData_old)

lemma submit_errs_obj:
  "obj_at (snd (submit state L w)) (length (heap w)) =
   obj_at (snd (checkData (formData state) L w)) (length (heap w))"
  by (simp add: submit_eq parseNumbers_old)

lemma submit_errors:
  "formData state < length (heap w) \<Longrightarrow>
   obj_at (snd (submit state L w)) (length (heap w)) k =
     (if \<exists>f \<in> set L. field_id f = k \<and>
           ((required f \<and> get_prop w (formData state) k = VStr []) \<or>
            get_prop w (formData state) k = VNull)
      then Some (VStr ''Field is required'') else None)"
  by (simp only: submit_errs_obj checkData_errors)

lemma submit_calls:
  "calls (snd (submit state L w)) =
     (if obj_at (snd (submit state L w)) (length (heap w)) = Map.empty
      then calls w @ [Suc (length (heap w))] else calls w)"
  by (simp add: submit_errs_obj) (simp add: submit_eq)

lemma submit_parsed:
  assumes "formData state < length (heap w)"
    and "obj_at (snd (submit state L w)) (length (heap w)) = Map.empty"
  shows "obj_at (snd (submit state L w)) (Suc (length (heap w))) k =
     (if \<exists>f \<in> set L. field_id f = k \<and> inputType f = NUMBER
      then Some (VNum (Number (get_prop w (formData state) k)))
      else obj_at w (formData state) k)"
proof -
  let ?w1 = "snd (checkData (formData state) L w)"
  have e: "obj_at ?w1 (length (heap w)) = Map.empty"
    using assms(2) by (simp only: submit_errs_obj)
  have d: "formData state < length (heap ?w1)" using assms(1) by simp
  have g: "get_prop ?w1 (formData state) k = get_prop w (formData state) k"
    using assms(1) by (simp add: get_prop_def checkData_old)
  have o: "obj_at ?w1 (formData state) k = obj_at w (formData state) k"
    using assms(1) by (simp add: checkData_old)
  have s: "obj_at (snd (submit state L w)) (Suc (length (heap w))) k =
           obj_at (snd (parseNumbers (formData state) L ?w1)) (length (heap ?w1)) k"
    by (simp add: submit_eq e)
  show ?thesis
    by (simp only: s parseNumbers_parsed [OF d] g o)
qed

lemma StringToNumber_empty: "StringToNumber [] = Fin 0"
  by (simp add: StringToNumber_def trimString_def)

subsection \<open>changeField and reset\<close>

lemma changeField_eq:
  "changeField state key val w =
     (state\<lparr>formData := length (heap w)\<rparr>,
      snd (new_obj ((obj_at w (formData state))(key \<mapsto> val)) w))"
  by (simp add: changeField_def new_obj_def)

lemma reset_eq:
  "reset state L w =
     (state\<lparr>formData := length (heap w), formErrors := Suc (length (heap w))\<rparr>,
      snd (new_obj Map.empty (snd (generateDefaultFormData L None None w))))"
  by (simp add: reset_def split_def generateDefaultFormData_None new_obj_def)

subsection \<open>What generateDefaultFormData leaves in the store\<close>

lemma generateDefaultFormData_fresh:
  "obj_at (snd (generateDefaultFormData L None idKey w)) (length (heap w)) k =
     (if inheritedMember k then None
      else case find (\<lambda>f. field_id f = k) L of
             None \<Rightarrow> None
           | Some f \<Rightarrow> Some (emptyOrDefault f))"
proof -
  let ?w0 = "snd (new_obj Map.empty w)"
  have "length (heap w) < length (heap ?w0)" by simp
  from fold_fillField_same [OF this, of L k]
  show ?thesis
    by (simp add: generateDefaultFormData_None nullish_def split: option.splits)
qed

lemma generateDefaultFormData_fresh_old:
  "r < length (heap w) \<Longrightarrow>
   obj_at (snd (generateDefaultFormData L None idKey w)) r = obj_at w r"
  by (simp add: generateDefaultFormData_None fold_fillField_other obj_at_new_obj_old)

lemma generateDefaultFormData_fresh_length:
  "length (heap (snd (generateDefaultFormData L None idKey w))) = Suc (length (heap w))"
  by (simp add: generateDefaultFormData_None)

lemma find_field_id:
  "f \<in> set L \<Longrightarrow> \<exists>g. find (\<lambda>f'. field_id f' = field_id f) L = Some g"
  by (cases "find (\<lambda>f'. field_id f' = field_id f) L") (auto simp: find_None_iff)

lemma fold_fillField_covers:
  assumes "fd < length (heap w)" and "f \<in> set L" and "\<not> inheritedMember (field_id f)"
  shows "field_id f \<in> dom (obj_at (fold (fillField fd) L w) fd)"
proof -
  obtain g where g: "find (\<lambda>f'. field_id f' = field_id f) L = Some g"
    using find_field_id [OF assms(2)] by blast
  show ?thesis
    using fold_fillField_same [OF assms(1), of L "field_id f"] g assms(3)
    by (auto simp: get_prop_nullish_iff dom_def)
qed

text \<open>
  With data supplied, an entry whose name is not inherited is decided by the loop alone.
\<close>

lemma generateDefaultFormData_Some_entry:
  assumes "d < length (heap w)" and "\<not> inheritedMember k"
  shows "obj_at (snd (generateDefaultFormData L (Some d) idKey w)) d k =
     (if obj_at w d k \<noteq> None \<and> obj_at w d k \<noteq> Some VUndefined \<and> obj_at w d k \<noteq> Some VNull
      then obj_at w d k
      else case find (\<lambda>f. field_id f = k) L of
             None \<Rightarrow> obj_at w d k
           | Some f \<Rightarrow> Some (emptyOrDefault f))"
  using assms
  by (simp add: generateDefaultFormData_Some_ordinary fold_fillField_same get_prop_nullish_iff)

subsection \<open>The hook keeps ordinary field ids covered\<close>

text \<open>
  For the field ids that are not names of inherited members, every operation of the hook
  keeps an entry in the form data. (For the other ids see claim C5.)
\<close>

lemma submit_length:
  "length (heap w) < length (heap (snd (submit state L w)))"
  by (simp add: submit_eq)

lemma generateDefaultFormData_covers:
  assumes "case defaultData of None \<Rightarrow> True | Some d \<Rightarrow> d < length (heap w)"
  shows "fst (generateDefaultFormData L defaultData idKey w)
           < length (heap (snd (generateDefaultFormData L defaultData idKey w))) \<and>
         (\<forall>f \<in> set L. \<not> inheritedMember (field_id f) \<longrightarrow>
            field_id f \<in>
              dom (obj_at (snd (generateDefaultFormData L defaultData idKey w))
                     (fst (generateDefaultFormData L defaultData idKey w))))"
proof (cases defaultData)
  case None
  have "length (heap w) < length (heap (snd (new_obj Map.empty w)))" by simp
  from fold_fillField_covers [OF this] show ?thesis
    by (simp add: None generateDefaultFormData_None)
next
  case (Some d)
  then have d: "d < length (heap w)" using assms by simp
  have "field_id f \<in> dom (obj_at (snd (generateDefaultFormData L (Some d) idKey w)) d)"
    if "f \<in> set L" "\<not> inheritedMember (field_id f)" for f
    using fold_fillField_covers [OF d that] that(2)
    by (simp add: dom_def generateDefaultFormData_Some_ordinary [OF d])
  then show ?thesis
    using d by (simp add: Some generateDefaultFormData_Some_length)
      (simp add: generateDefaultFormData_Some)
qed

lemma useFormControl_eq:
  "useFormControl L defaultData idKey w =
     (\<lparr>formData = fst (generateDefaultFormData L defaultData idKey w),
       formErrors = length (heap (snd (generateDefaultFormData L defaultData idKey w)))\<rparr>,
      snd (new_obj Map.empty (snd (generateDefaultFormData L defaultData idKey w))))"
  by (simp add: useFormControl_def split_def new_obj_def Let_def)

lemma useFormControl_covers:
  assumes "case defaultData of None \<Rightarrow> True | Some d \<Rightarrow> d < length (heap w)"
  shows "formData (fst (useFormControl L defaultData idKey w))
           < length (heap (snd (useFormControl L defaultData idKey w))) \<and>
         (\<forall>f \<in> set L. \<not> inheritedMember (field_id f) \<longrightarrow>
            field_id f \<in>
              dom (obj_at (snd (useFormControl L defaultData idKey w))
                     (formData (fst (useFormControl L defaultData idKey w)))))"
  using generateDefaultFormData_covers [OF assms, of L idKey]
  by (simp add: useFormControl_eq obj_at_new_obj_old)

lemma reducer_covers:
  assumes "formData s < length (heap w)"
    and "\<forall>f \<in> set L. \<not> inheritedMember (field_id f) \<longrightarrow>
           field_id f \<in> dom (obj_at w (formData s))"
  shows "\<exists>s' w'. reducer s (dispatched L c) w = Inr (s', w') \<and>
           formData s' < length (heap w') \<and>
           (\<forall>f \<in> set L. \<not> inheritedMember (field_id f) \<longrightarrow>
              field_id f \<in> dom (obj_at w' (formData s')))"
proof (cases c)
  case CallReset
  have "length (heap w) < length (heap (snd (generateDefaultFormData L None None w)))"
    by (simp add: generateDefaultFormData_fresh_length)
  moreover have
    "field_id f \<in> dom (obj_at (snd (generateDefaultFormData L None None w)) (length (heap w)))"
    if "f \<in> set L" "\<not> inheritedMember (field_id f)" for f
    using find_field_id [OF that(1)] that(2) by (auto simp: generateDefaultFormData_fresh)
  ultimately show ?thesis
    by (simp add: CallReset reset_eq obj_at_new_obj_old)
next
  case CallSubmit
  have "formData s < length (heap (snd (submit s L w)))"
    using assms(1) submit_length [of w s L] by simp
  then show ?thesis
    using assms by (simp add: CallSubmit submit_eq [THEN arg_cong, of fst] submit_old
        prod_eq_iff submit_state)
next
  case (CallChangeField key val)
  show ?thesis
    using assms(2) by (auto simp: CallChangeField changeField_eq)
qed

lemma reduceAll_covers:
  assumes "formData (fst sw) < length (heap (snd sw))"
    and "\<forall>f \<in> set L. \<not> inheritedMember (field_id f) \<longrightarrow>
           field_id f \<in> dom (obj_at (snd sw) (formData (fst sw)))"
  shows "\<exists>s' w'. reduceAll (map (dispatched L) cs) sw = Inr (s', w') \<and>
           formData s' < length (heap w') \<and>
           (\<forall>f \<in> set L. \<not> inheritedMember (field_id f) \<longrightarrow>
              field_id f \<in> dom (obj_at w' (formData s')))"
  using assms
proof (induction cs arbitrary: sw)
  case Nil
  then show ?case by (cases sw) simp
next
  case (Cons c cs)
  obtain s1 w1 where r: "reducer (fst sw) (dispatched L c) (snd sw) = Inr (s1, w1)"
    and v: "formData s1 < length (heap w1)"
    and cov: "\<forall>f \<in> set L. \<not> inheritedMember (field_id f) \<longrightarrow>
                field_id f \<in> dom (obj_at w1 (formData s1))"
    using reducer_covers [OF Cons.prems] by blast
  from Cons.IH [of "(s1, w1)"] v cov show ?case by (simp add: r)
qed

lemma runHook_covers:
  assumes "case defaultData of None \<Rightarrow> True | Some d \<Rightarrow> valid_ref w d"
  shows "\<exists>state w'. runHook formLayout defaultData idKey cs w = Inr (state, w') \<and>
           (\<forall>f \<in> set formLayout. \<not> inheritedMember (field_id f) \<longrightarrow>
              field_id f \<in> dom (obj_at w' (formData state)))"
proof -
  have "case defaultData of None \<Rightarrow> True | Some d \<Rightarrow> d < length (heap w)"
    using assms by (simp add: valid_ref_def split: option.splits)
  from useFormControl_covers [OF this, of formLayout idKey]
  have "\<exists>s' w'. reduceAll (map (dispatched formLayout) cs)
                   (useFormControl formLayout defaultData idKey w) = Inr (s', w') \<and>
           formData s' < length (heap w') \<and>
           (\<forall>f \<in> set formLayout. \<not> inheritedMember (field_id f) \<longrightarrow>
              field_id f \<in> dom (obj_at w' (formData s')))"
    by (intro reduceAll_covers) simp_all
  then show ?thesis unfolding runHook_def by blast
qed

section \<open>The claims\<close>

subsection \<open>Validation\<close>

text \<open>
  Claim C1: the validator records "Field is required" exactly for the required fields
  whose value is the empty string or null, and never for a field that is not required.

  The code does not do this. The test in \<open>checkData\<close> reads
  \<open>(required && data[id] === "") || data[id] === null\<close>, so the null test is outside
  the \<open>required\<close> guard: below, a field with \<open>required = False\<close> whose value is
  null receives the message that it is required.
\<close>

theorem checkData_flags_optional_null:
  "get_prop
     (snd (checkData 0
        [\<lparr>field_id = ''a'', inputType = STRING, required = False, defaultValue = VUndefined\<rparr>]
        \<lparr>heap = [[''a'' \<mapsto> VNull]], calls = []\<rparr>))
     (fst (checkData 0
        [\<lparr>field_id = ''a'', inputType = STRING, required = False, defaultValue = VUndefined\<rparr>]
        \<lparr>heap = [[''a'' \<mapsto> VNull]], calls = []\<rparr>))
     ''a'' = VStr ''Field is required''"
  by (simp add: checkData_def checkField_def new_obj_def set_prop_def get_prop_def inheritedMember_def obj_at_def)

text \<open>
  Claim C2: when no required field holds the empty string or null, submit calls the
  callback exactly once, with the NUMBER fields converted, and leaves no error.

  The same test of \<open>checkData\<close> breaks it: the layout below has no required field at
  all, the one optional field holds null, and submit records an error and never calls
  the callback.
\<close>

theorem submit_blocked_by_optional_null:
  "calls
     (snd (submit \<lparr>formData = 0, formErrors = 1\<rparr>
        [\<lparr>field_id = ''a'', inputType = STRING, required = False, defaultValue = VUndefined\<rparr>]
        \<lparr>heap = [[''a'' \<mapsto> VNull], Map.empty], calls = []\<rparr>)) = [] \<and>
   obj_at
     (snd (submit \<lparr>formData = 0, formErrors = 1\<rparr>
        [\<lparr>field_id = ''a'', inputType = STRING, required = False, defaultValue = VUndefined\<rparr>]
        \<lparr>heap = [[''a'' \<mapsto> VNull], Map.empty], calls = []\<rparr>))
     (formErrors (fst (submit \<lparr>formData = 0, formErrors = 1\<rparr>
        [\<lparr>field_id = ''a'', inputType = STRING, required = False, defaultValue = VUndefined\<rparr>]
        \<lparr>heap = [[''a'' \<mapsto> VNull], Map.empty], calls = []\<rparr>)))
     = [''a'' \<mapsto> VStr ''Field is required'']"
  by (simp add: submit_def checkData_def checkField_def new_obj_def set_prop_def get_prop_def inheritedMember_def
      obj_at_def)

text \<open>
  What does hold: when no field of the layout holds null and no required field holds
  the empty string, submit leaves no error and calls the callback once, with a new
  object in which the NUMBER fields are converted.
\<close>

lemma submit_accepts_valid:
  assumes "valid_ref w (formData state)"
    and "submit state formLayout w = (state', w')"
    and "\<forall>f \<in> set formLayout.
           get_prop w (formData state) (field_id f) \<noteq> VNull \<and>
           (required f \<longrightarrow> get_prop w (formData state) (field_id f) \<noteq> VStr [])"
  shows "obj_at w' (formErrors state') = Map.empty \<and>
         (\<exists>arg. calls w' = calls w @ [arg] \<and>
            (\<forall>k. obj_at w' arg k =
               (if \<exists>f \<in> set formLayout. field_id f = k \<and> inputType f = NUMBER
                then Some (VNum (Number (get_prop w (formData state) k)))
                else obj_at w (formData state) k)))"
proof -
  have d: "formData state < length (heap w)" using assms(1) by (simp add: valid_ref_def)
  have s': "state' = state\<lparr>formErrors := length (heap w)\<rparr>"
    using assms(2) submit_state [of state formLayout w] by simp
  have w': "w' = snd (submit state formLayout w)" using assms(2) by simp
  have "obj_at w' (length (heap w)) k = None" for k
    unfolding w' using assms(3) by (subst submit_errors [OF d]) auto
  then have ok: "obj_at w' (length (heap w)) = Map.empty" by (simp add: fun_eq_iff)
  have c: "calls w' = calls w @ [Suc (length (heap w))]"
    unfolding w' using ok [unfolded w'] by (simp add: submit_calls)
  have "\<forall>k. obj_at w' (Suc (length (heap w))) k =
               (if \<exists>f \<in> set formLayout. field_id f = k \<and> inputType f = NUMBER
                then Some (VNum (Number (get_prop w (formData state) k)))
                else obj_at w (formData state) k)"
    using submit_parsed [OF d ok [unfolded w']] unfolding w' by blast
  then show ?thesis using ok c s' by auto
qed



subsection \<open>Numeric coercion\<close>



text \<open>
  Claim C10: on a successful submit, a NUMBER field whose stored value is the empty
  string reaches the callback as the number 0, because \<open>Number("")\<close> is 0.
\<close>

theorem submit_empty_number_is_zero:
  assumes "valid_ref w (formData state)"
    and "submit state formLayout w = (state', w')"
    and "calls w' \<noteq> calls w"
    and "f \<in> set formLayout"
    and "inputType f = NUMBER"
    and "get_prop w (formData state) (field_id f) = VStr []"
  shows "\<exists>arg. calls w' = calls w @ [arg] \<and> obj_at w' arg (field_id f) = Some (VNum (Fin 0))"
proof -
  have d: "formData state < length (heap w)" using assms(1) by (simp add: valid_ref_def)
  have w': "w' = snd (submit state formLayout w)" using assms(2) by simp
  have c: "calls w' = (if obj_at w' (length (heap w)) = Map.empty
                       then calls w @ [Suc (length (heap w))] else calls w)"
    unfolding w' by (rule submit_calls)
  have ok: "obj_at w' (length (heap w)) = Map.empty" using c assms(3) by (simp split: if_splits)
  have "obj_at w' (Suc (length (heap w))) (field_id f) =
          Some (VNum (Number (get_prop w (formData state) (field_id f))))"
    unfolding w' using assms(4,5) by (subst submit_parsed [OF d ok [unfolded w']]) auto
  then have "obj_at w' (Suc (length (heap w))) (field_id f) = Some (VNum (Fin 0))"
    by (simp add: assms(6) StringToNumber_empty)
  moreover have "calls w' = calls w @ [Suc (length (heap w))]" using c ok by simp
  ultimately show ?thesis by blast
qed

theorem submit_empty_number_is_zero_witness:
  "(let w = \<lparr>heap = [[''n'' \<mapsto> VStr ''''], Map.empty], calls = []\<rparr>;
        state = \<lparr>formData = 0, formErrors = 1\<rparr>;
        formLayout =
          [\<lparr>field_id = ''n'', inputType = NUMBER, required = False, defaultValue = VUndefined\<rparr>];
        w' = snd (submit state formLayout w)
    in valid_ref w (formData state) \<and> get_prop w (formData state) ''n'' = VStr [] \<and>
       calls w' = [3] \<and> obj_at w' 3 ''n'' = Some (VNum (Fin 0)))"
proof -
  define w where "w = \<lparr>heap = [[''n'' \<mapsto> VStr ''''], Map.empty], calls = []\<rparr>"
  define s where "s = \<lparr>formData = 0, formErrors = 1\<rparr>"
  define f where
    "f = \<lparr>field_id = ''n'', inputType = NUMBER, required = False, defaultValue = VUndefined\<rparr>"
  define s' where "s' = fst (submit s [f] w)"
  define w' where "w' = snd (submit s [f] w)"
  note defs = w_def s_def f_def s'_def w'_def
  have v: "valid_ref w (formData s)" by (simp add: w_def s_def valid_ref_def)
  have eq: "submit s [f] w = (s', w')" by (simp add: s'_def w'_def)
  have c: "calls w' = [3]"
    unfolding defs
    by (simp add: submit_def checkData_def checkField_def new_obj_def set_prop_def get_prop_def inheritedMember_def
      obj_at_def parseNumbers_def parseField_def invoke_def)
  have ne: "calls w' \<noteq> calls w" using c by (simp add: w_def)
  have g: "get_prop w (formData s) (field_id f) = VStr []"
    by (simp add: w_def s_def f_def get_prop_def inheritedMember_def obj_at_def)
  obtain arg where arg: "calls w' = calls w @ [arg]"
    and z: "obj_at w' arg (field_id f) = Some (VNum (Fin 0))"
    using submit_empty_number_is_zero [OF v eq ne _ _ g] by (auto simp: f_def)
  have arg3: "arg = 3" using arg c by (simp add: w_def)
  have z': "obj_at w' 3 ''n'' = Some (VNum (Fin 0))" using z by (simp add: arg3 f_def)
  have g': "get_prop w (formData s) ''n'' = VStr []" using g by (simp add: f_def)
  show ?thesis
    using v c g' z' unfolding defs by (simp add: Let_def)
qed

subsection \<open>changeField and reset\<close>

text \<open>
  Claim C6: \<open>changeField(k, v)\<close> applied twice gives the same state as applied once
  (the same form data and the same errors; each application builds a new form data
  object, so the two are compared by content), and one application changes the entry
  for \<open>k\<close> only: every other entry of the form data and the errors are as before.
\<close>

theorem changeField_idempotent_local:
  assumes "valid_ref w (formData state)" and "valid_ref w (formErrors state)"
    and "changeField state key val w = (s1, w1)"
    and "changeField s1 key val w1 = (s2, w2)"
  shows "obj_at w2 (formData s2) = obj_at w1 (formData s1) \<and>
         formErrors s2 = formErrors s1 \<and>
         obj_at w2 (formErrors s2) = obj_at w1 (formErrors s1) \<and>
         obj_at w1 (formData s1) key = Some val \<and>
         (\<forall>k. k \<noteq> key \<longrightarrow> obj_at w1 (formData s1) k = obj_at w (formData state) k) \<and>
         formErrors s1 = formErrors state \<and>
         obj_at w1 (formErrors s1) = obj_at w (formErrors state)"
proof -
  have s1: "s1 = state\<lparr>formData := length (heap w)\<rparr>"
    and w1: "w1 = snd (new_obj ((obj_at w (formData state))(key \<mapsto> val)) w)"
    using assms(3) by (simp_all add: changeField_eq)
  have s2: "s2 = s1\<lparr>formData := length (heap w1)\<rparr>"
    and w2: "w2 = snd (new_obj ((obj_at w1 (formData s1))(key \<mapsto> val)) w1)"
    using assms(4) by (simp_all add: changeField_eq)
  have e: "formErrors state < length (heap w)" using assms(2) by (simp add: valid_ref_def)
  have o1: "obj_at w1 (formData s1) = (obj_at w (formData state))(key \<mapsto> val)"
    by (simp add: s1 w1)
  have o2: "obj_at w2 (formData s2) = (obj_at w1 (formData s1))(key \<mapsto> val)"
    by (simp add: s2 w2)
  have e1: "obj_at w1 (formErrors state) = obj_at w (formErrors state)"
    using e by (simp add: w1 obj_at_new_obj_old)
  have e2: "obj_at w2 (formErrors state) = obj_at w1 (formErrors state)"
    using e by (simp add: w2 w1 obj_at_new_obj_old)
  have same: "obj_at w2 (formData s2) = obj_at w1 (formData s1)"
    by (simp only: o2 o1 fun_upd_upd)
  have errs: "formErrors s2 = formErrors s1" "formErrors s1 = formErrors state"
    by (simp_all add: s1 s2)
  show ?thesis
    unfolding same errs using e1 e2 by (simp add: o1)
qed

theorem changeField_idempotent_local_witness:
  "(let w = \<lparr>heap = [[''a'' \<mapsto> VStr ''x'', ''b'' \<mapsto> VBool True], [''b'' \<mapsto> VStr ''Field is required'']],
               calls = []\<rparr>;
        state = \<lparr>formData = 0, formErrors = 1\<rparr>;
        s1 = fst (changeField state ''a'' (VStr ''y'') w);
        w1 = snd (changeField state ''a'' (VStr ''y'') w);
        s2 = fst (changeField s1 ''a'' (VStr ''y'') w1);
        w2 = snd (changeField s1 ''a'' (VStr ''y'') w1)
    in valid_ref w (formData state) \<and> valid_ref w (formErrors state) \<and>
       obj_at w2 (formData s2) = obj_at w1 (formData s1) \<and>
       obj_at w2 (formErrors s2) = obj_at w1 (formErrors s1) \<and>
       obj_at w1 (formData s1) ''a'' = Some (VStr ''y'') \<and>
       obj_at w1 (formData s1) ''b'' = Some (VBool True) \<and>
       obj_at w1 (formErrors s1) = [''b'' \<mapsto> VStr ''Field is required''])"
proof -
  define w where "w = \<lparr>heap = [[''a'' \<mapsto> VStr ''x'', ''b'' \<mapsto> VBool True], [''b'' \<mapsto> VStr ''Field is required'']],
               calls = []\<rparr>"
  define s where "s = \<lparr>formData = 0, formErrors = 1\<rparr>"
  define s1 where "s1 = fst (changeField s ''a'' (VStr ''y'') w)"
  define w1 where "w1 = snd (changeField s ''a'' (VStr ''y'') w)"
  define s2 where "s2 = fst (changeField s1 ''a'' (VStr ''y'') w1)"
  define w2 where "w2 = snd (changeField s1 ''a'' (VStr ''y'') w1)"
  note defs = w_def s_def s1_def w1_def s2_def w2_def
  have v: "valid_ref w (formData s)" by (simp add: w_def s_def valid_ref_def)
  have v': "valid_ref w (formErrors s)" by (simp add: w_def s_def valid_ref_def)
  have eq1: "changeField s ''a'' (VStr ''y'') w = (s1, w1)" by (simp add: s1_def w1_def)
  have eq2: "changeField s1 ''a'' (VStr ''y'') w1 = (s2, w2)" by (simp add: s2_def w2_def)
  note T = changeField_idempotent_local [OF v v' eq1 eq2]
  have a: "obj_at w2 (formData s2) = obj_at w1 (formData s1)" using T by blast
  have b: "obj_at w2 (formErrors s2) = obj_at w1 (formErrors s1)" using T by blast
  have c: "obj_at w1 (formData s1) ''a'' = Some (VStr ''y'')" using T by blast
  have fr: "\<And>k. k \<noteq> ''a'' \<Longrightarrow> obj_at w1 (formData s1) k = obj_at w (formData s) k"
    using T by blast
  have d: "obj_at w1 (formData s1) ''b'' = Some (VBool True)"
    using fr [of "''b''"] by (simp add: w_def s_def obj_at_def)
  have er: "obj_at w1 (formErrors s1) = obj_at w (formErrors s)" using T by blast
  have e: "obj_at w1 (formErrors s1) = [''b'' \<mapsto> VStr ''Field is required'']"
    using er by (simp add: w_def s_def obj_at_def)
  show ?thesis
    using v v' a b c d e unfolding defs by (simp add: Let_def)
qed

text \<open>
  Claim C8: reset returns a state with no errors, whose form data is what
  \<open>generateDefaultFormData\<close> produces for the layout without data. For every name that
  is not the name of an inherited member, that is the default or empty value of the
  field of that id, and no entry when the layout has no such field, whatever the state
  was before.
\<close>

theorem reset_fresh_defaults:
  assumes "reset state formLayout w = (state', w')"
    and "generateDefaultFormData formLayout None None w = (fd, wg)"
  shows "obj_at w' (formErrors state') = Map.empty \<and>
         obj_at w' (formData state') = obj_at wg fd \<and>
         (\<forall>k. \<not> inheritedMember k \<longrightarrow>
              obj_at w' (formData state') k =
                (case find (\<lambda>f. field_id f = k) formLayout of
                   None \<Rightarrow> None
                 | Some f \<Rightarrow> Some (emptyOrDefault f)))"
proof -
  have s': "state' = state\<lparr>formData := length (heap w), formErrors := Suc (length (heap w))\<rparr>"
    and w': "w' = snd (new_obj Map.empty wg)"
    using assms by (simp_all add: reset_eq)
  have fd: "fd = length (heap w)" and wg: "wg = snd (generateDefaultFormData formLayout None None w)"
    using assms(2) by (auto simp: generateDefaultFormData_None)
  have len: "length (heap wg) = Suc (length (heap w))"
    unfolding wg by (rule generateDefaultFormData_fresh_length)
  have e: "obj_at w' (formErrors state') = Map.empty"
    by (simp add: s' w' len [symmetric])
  have d: "obj_at w' (formData state') = obj_at wg fd"
    using len by (simp add: s' w' fd obj_at_new_obj_old)
  have "\<forall>k. \<not> inheritedMember k \<longrightarrow>
            obj_at wg fd k =
              (case find (\<lambda>f. field_id f = k) formLayout of
                 None \<Rightarrow> None
               | Some f \<Rightarrow> Some (emptyOrDefault f))"
    unfolding wg fd by (simp add: generateDefaultFormData_fresh)
  then show ?thesis using e d by simp
qed

theorem reset_fresh_defaults_witness:
  "(let w = \<lparr>heap = [[''age'' \<mapsto> VStr ''41'', ''stale'' \<mapsto> VBool True], [''age'' \<mapsto> VStr ''Field is required'']],
               calls = []\<rparr>;
        state = \<lparr>formData = 0, formErrors = 1\<rparr>;
        formLayout =
          [\<lparr>field_id = ''age'', inputType = NUMBER, required = True, defaultValue = VUndefined\<rparr>,
           \<lparr>field_id = ''ok'', inputType = BOOLEAN, required = False, defaultValue = VNull\<rparr>,
           \<lparr>field_id = ''name'', inputType = STRING, required = False, defaultValue = VStr ''Al''\<rparr>];
        state' = fst (reset state formLayout w);
        w' = snd (reset state formLayout w)
    in obj_at w' (formErrors state') = Map.empty \<and>
       obj_at w' (formData state') =
         obj_at (snd (generateDefaultFormData formLayout None None w))
           (fst (generateDefaultFormData formLayout None None w)) \<and>
       obj_at w' (formData state') ''age'' = Some (VStr []) \<and>
       obj_at w' (formData state') ''ok'' = Some (VBool False) \<and>
       obj_at w' (formData state') ''name'' = Some (VStr ''Al'') \<and>
       obj_at w' (formData state') ''stale'' = None)"
proof -
  define w where "w = \<lparr>heap = [[''age'' \<mapsto> VStr ''41'', ''stale'' \<mapsto> VBool True], [''age'' \<mapsto> VStr ''Field is required'']],
               calls = []\<rparr>"
  define s where "s = \<lparr>formData = 0, formErrors = 1\<rparr>"
  define L where "L =
          [\<lparr>field_id = ''age'', inputType = NUMBER, required = True, defaultValue = VUndefined\<rparr>,
           \<lparr>field_id = ''ok'', inputType = BOOLEAN, required = False, defaultValue = VNull\<rparr>,
           \<lparr>field_id = ''name'', inputType = STRING, required = False, defaultValue = VStr ''Al''\<rparr>]"
  define s' where "s' = fst (reset s L w)"
  define w' where "w' = snd (reset s L w)"
  note defs = w_def s_def L_def s'_def w'_def
  have eq: "reset s L w = (s', w')" by (simp add: s'_def w'_def)
  have eq2: "generateDefaultFormData L None None w =
      (fst (generateDefaultFormData L None None w), snd (generateDefaultFormData L None None w))"
    by simp
  note T = reset_fresh_defaults [OF eq eq2]
  have e: "obj_at w' (formErrors s') = Map.empty" using T by blast
  have g: "obj_at w' (formData s') =
         obj_at (snd (generateDefaultFormData L None None w))
           (fst (generateDefaultFormData L None None w))"
    using T by blast
  have k: "\<And>k. \<not> inheritedMember k \<Longrightarrow>
            obj_at w' (formData s') k =
              (case find (\<lambda>f. field_id f = k) L of
                 None \<Rightarrow> None
               | Some f \<Rightarrow> Some (emptyOrDefault f))"
    using T by blast
  have a: "obj_at w' (formData s') ''age'' = Some (VStr [])"
    by (subst k) (simp_all add: inheritedMember_def L_def emptyOrDefault_def nullish_def)
  have b: "obj_at w' (formData s') ''ok'' = Some (VBool False)"
    by (subst k) (simp_all add: inheritedMember_def L_def emptyOrDefault_def nullish_def)
  have c: "obj_at w' (formData s') ''name'' = Some (VStr ''Al'')"
    by (subst k) (simp_all add: inheritedMember_def L_def emptyOrDefault_def nullish_def)
  have d: "obj_at w' (formData s') ''stale'' = None"
    by (subst k) (simp_all add: inheritedMember_def L_def)
  show ?thesis
    using e g a b c d unfolding defs by (simp add: Let_def)
qed

subsection \<open>Default data\<close>

text \<open>
  Claim C9: given a data object, \<open>generateDefaultFormData\<close> does not copy it but
  returns and fills the caller's object, which gains a default entry for every layout
  field it was missing.

  The first part holds, the last does not. The guard \<open>formData[id] != null\<close> reads
  through to the members every object inherits, so a field whose id is such a name
  (\<open>toString\<close>, \<open>constructor\<close>, ...) counts as having a value although the object has
  no such property, and is skipped. Below, the supplied object is empty, the layout has
  the one field \<open>toString\<close>, and the object returned is the one supplied, still without
  the entry. This contradicts the comment on the guard (a field that already has a value
  is not overwritten) and the documented result (the default data for the form).
\<close>

theorem generateDefaultFormData_skips_inherited_name:
  "fst (generateDefaultFormData
          [\<lparr>field_id = ''toString'', inputType = STRING, required = True, defaultValue = VUndefined\<rparr>]
          (Some 0) None \<lparr>heap = [Map.empty], calls = []\<rparr>) = 0 \<and>
   obj_at \<lparr>heap = [Map.empty], calls = []\<rparr> 0 ''toString'' = None \<and>
   obj_at
     (snd (generateDefaultFormData
        [\<lparr>field_id = ''toString'', inputType = STRING, required = True, defaultValue = VUndefined\<rparr>]
        (Some 0) None \<lparr>heap = [Map.empty], calls = []\<rparr>))
     0 ''toString'' = None"
  by (simp add: generateDefaultFormData_def fillField_def set_prop_def get_prop_def obj_at_def
      inheritedMember_def nullish_def emptyOrDefault_def)

text \<open>
  What does hold: the reference returned is the one supplied, nothing is allocated, no
  other object changes, and the supplied object gains the default or empty value for
  every field it was missing (or held as null) whose id is not the name of an inherited
  member, keeping its own values.
\<close>

lemma generateDefaultFormData_in_place:
  assumes "valid_ref w d"
    and "generateDefaultFormData formLayout (Some d) idKey w = (fd, w')"
  shows "fd = d \<and> length (heap w') = length (heap w) \<and>
         (\<forall>r. r \<noteq> d \<longrightarrow> obj_at w' r = obj_at w r) \<and>
         (\<forall>f \<in> set formLayout. \<not> inheritedMember (field_id f) \<longrightarrow>
            field_id f \<in> dom (obj_at w' d)) \<and>
         (\<forall>k f. \<not> inheritedMember k \<and> nullish (get_prop w d k) \<and>
                 find (\<lambda>g. field_id g = k) formLayout = Some f \<longrightarrow>
                 obj_at w' d k = Some (emptyOrDefault f)) \<and>
         (\<forall>k. \<not> inheritedMember k \<and> \<not> nullish (get_prop w d k) \<longrightarrow>
              obj_at w' d k = obj_at w d k)"
proof -
  have d: "d < length (heap w)" using assms(1) by (simp add: valid_ref_def)
  have fd: "fd = d" and w': "w' = snd (generateDefaultFormData formLayout (Some d) idKey w)"
    using assms(2) by (auto simp: generateDefaultFormData_Some)
  have "length (heap w') = length (heap w)"
    by (simp add: w' generateDefaultFormData_Some_length)
  moreover have "\<forall>r. r \<noteq> d \<longrightarrow> obj_at w' r = obj_at w r"
    by (simp add: w' generateDefaultFormData_Some_other)
  moreover have "\<forall>f \<in> set formLayout. \<not> inheritedMember (field_id f) \<longrightarrow>
            field_id f \<in> dom (obj_at w' d)"
    unfolding w' using fold_fillField_covers [OF d]
    by (simp add: dom_def generateDefaultFormData_Some_ordinary [OF d])
  moreover have "\<forall>k f. \<not> inheritedMember k \<and> nullish (get_prop w d k) \<and>
                 find (\<lambda>g. field_id g = k) formLayout = Some f \<longrightarrow>
                 obj_at w' d k = Some (emptyOrDefault f)"
    unfolding w'
    by (simp add: generateDefaultFormData_Some_ordinary [OF d] fold_fillField_same [OF d])
  moreover have "\<forall>k. \<not> inheritedMember k \<and> \<not> nullish (get_prop w d k) \<longrightarrow>
              obj_at w' d k = obj_at w d k"
    unfolding w'
    by (simp add: generateDefaultFormData_Some_ordinary [OF d] fold_fillField_same [OF d])
  ultimately show ?thesis using fd by blast
qed

text \<open>
  Claim C4: the generator returns a mapping that covers every field id of the layout;
  fields not present in the supplied data get their declared default, or \<open>false\<close>
  (BOOLEAN) or \<open>""\<close>, and fields already present keep their supplied value.

  As stated this fails in two ways. A field that is present with the value null is
  overwritten: the guard \<open>formData[id] != null\<close> treats null like a missing value. And a
  field whose id is the name of an inherited member is not covered: the same guard
  finds the inherited member and skips the field (see claim C9).
\<close>

theorem generateDefaultFormData_overwrites_null:
  "''a'' \<in> dom (obj_at \<lparr>heap = [[''a'' \<mapsto> VNull]], calls = []\<rparr> 0) \<and>
   obj_at
     (snd (generateDefaultFormData
        [\<lparr>field_id = ''a'', inputType = STRING, required = False, defaultValue = VUndefined\<rparr>]
        (Some 0) None \<lparr>heap = [[''a'' \<mapsto> VNull]], calls = []\<rparr>))
     (fst (generateDefaultFormData
        [\<lparr>field_id = ''a'', inputType = STRING, required = False, defaultValue = VUndefined\<rparr>]
        (Some 0) None \<lparr>heap = [[''a'' \<mapsto> VNull]], calls = []\<rparr>))
     ''a'' \<noteq>
   obj_at \<lparr>heap = [[''a'' \<mapsto> VNull]], calls = []\<rparr> 0 ''a'' \<and>
   ''toString'' \<notin>
     dom (obj_at
       (snd (generateDefaultFormData
          [\<lparr>field_id = ''toString'', inputType = STRING, required = False,
            defaultValue = VUndefined\<rparr>]
          None None \<lparr>heap = [], calls = []\<rparr>))
       (fst (generateDefaultFormData
          [\<lparr>field_id = ''toString'', inputType = STRING, required = False,
            defaultValue = VUndefined\<rparr>]
          None None \<lparr>heap = [], calls = []\<rparr>)))"
  by (simp add: generateDefaultFormData_def fillField_def set_prop_def get_prop_def obj_at_def
      new_obj_def inheritedMember_def nullish_def emptyOrDefault_def)

text \<open>
  Claim C4, amended: for the names that are not names of inherited members, the result
  covers every field id of the layout, and each of its entries is the supplied one when
  that holds a value other than null and undefined; otherwise it is \<open>emptyOrDefault\<close>
  of the first descriptor with that id (the only one, when ids are unique), and for a
  name that is no field id the entry is as supplied. This holds with and without
  supplied data, for any \<open>idKey\<close>. Nothing is said about the names of inherited members.
\<close>

theorem generateDefaultFormData_fills:
  assumes "case defaultData of None \<Rightarrow> True | Some d \<Rightarrow> valid_ref w d"
    and "generateDefaultFormData formLayout defaultData idKey w = (fd, w')"
  shows "(\<forall>f \<in> set formLayout. \<not> inheritedMember (field_id f) \<longrightarrow>
            field_id f \<in> dom (obj_at w' fd)) \<and>
         (\<forall>k. \<not> inheritedMember k \<longrightarrow>
            obj_at w' fd k =
              (let supplied = (case defaultData of None \<Rightarrow> None | Some d \<Rightarrow> obj_at w d k)
               in if supplied \<noteq> None \<and> supplied \<noteq> Some VUndefined \<and> supplied \<noteq> Some VNull
                  then supplied
                  else case find (\<lambda>f. field_id f = k) formLayout of
                         None \<Rightarrow> supplied
                       | Some f \<Rightarrow> Some (emptyOrDefault f)))"
proof (cases defaultData)
  case None
  have fd: "fd = length (heap w)"
    and w': "w' = snd (generateDefaultFormData formLayout None idKey w)"
    using assms(2) None by (auto simp: generateDefaultFormData_None)
  have k: "obj_at w' fd k =
     (case find (\<lambda>f. field_id f = k) formLayout of
        None \<Rightarrow> None
      | Some f \<Rightarrow> Some (emptyOrDefault f))" if "\<not> inheritedMember k" for k
    unfolding fd w' using that by (simp add: generateDefaultFormData_fresh)
  have "field_id f \<in> dom (obj_at w' fd)"
    if "f \<in> set formLayout" "\<not> inheritedMember (field_id f)" for f
    using find_field_id [OF that(1)] k [OF that(2)] by auto
  then show ?thesis using k None by simp
next
  case (Some d)
  have d: "d < length (heap w)" using assms(1) Some by (simp add: valid_ref_def)
  have fd: "fd = d" and w': "w' = snd (generateDefaultFormData formLayout (Some d) idKey w)"
    using assms(2) Some by (auto simp: generateDefaultFormData_Some)
  have "\<forall>f \<in> set formLayout. \<not> inheritedMember (field_id f) \<longrightarrow>
          field_id f \<in> dom (obj_at w' fd)"
    unfolding w' fd using fold_fillField_covers [OF d]
    by (simp add: dom_def generateDefaultFormData_Some_ordinary [OF d])
  moreover have "obj_at w' fd k =
            (if obj_at w d k \<noteq> None \<and> obj_at w d k \<noteq> Some VUndefined \<and> obj_at w d k \<noteq> Some VNull
                then obj_at w d k
                else case find (\<lambda>f. field_id f = k) formLayout of
                       None \<Rightarrow> obj_at w d k
                     | Some f \<Rightarrow> Some (emptyOrDefault f))" if "\<not> inheritedMember k" for k
    unfolding w' fd by (rule generateDefaultFormData_Some_entry [OF d that])
  ultimately show ?thesis using Some by (simp add: Let_def)
qed

theorem generateDefaultFormData_fills_witness:
  "(let w = \<lparr>heap = [[''a'' \<mapsto> VStr ''x'', ''c'' \<mapsto> VNull, ''id'' \<mapsto> VNum (Fin 9)]], calls = []\<rparr>;
        formLayout =
          [\<lparr>field_id = ''a'', inputType = STRING, required = True, defaultValue = VStr ''q''\<rparr>,
           \<lparr>field_id = ''b'', inputType = BOOLEAN, required = False, defaultValue = VUndefined\<rparr>,
           \<lparr>field_id = ''c'', inputType = NUMBER, required = False, defaultValue = VNum (Fin 7)\<rparr>,
           \<lparr>field_id = ''n'', inputType = NUMBER, required = False, defaultValue = VNull\<rparr>];
        fd = fst (generateDefaultFormData formLayout (Some 0) (Some ''id'') w);
        w' = snd (generateDefaultFormData formLayout (Some 0) (Some ''id'') w)
    in valid_ref w 0 \<and> \<not> inheritedMember ''n'' \<and>
       obj_at w' fd ''a'' = Some (VStr ''x'') \<and>
       obj_at w' fd ''b'' = Some (VBool False) \<and>
       obj_at w' fd ''c'' = Some (VNum (Fin 7)) \<and>
       obj_at w' fd ''n'' = Some (VStr []) \<and>
       obj_at w' fd ''id'' = Some (VNum (Fin 9)) \<and>
       ''n'' \<in> dom (obj_at w' fd))"
proof -
  define w where "w = \<lparr>heap = [[''a'' \<mapsto> VStr ''x'', ''c'' \<mapsto> VNull, ''id'' \<mapsto> VNum (Fin 9)]], calls = []\<rparr>"
  define L where "L =
          [\<lparr>field_id = ''a'', inputType = STRING, required = True, defaultValue = VStr ''q''\<rparr>,
           \<lparr>field_id = ''b'', inputType = BOOLEAN, required = False, defaultValue = VUndefined\<rparr>,
           \<lparr>field_id = ''c'', inputType = NUMBER, required = False, defaultValue = VNum (Fin 7)\<rparr>,
           \<lparr>field_id = ''n'', inputType = NUMBER, required = False, defaultValue = VNull\<rparr>]"
  define fd where "fd = fst (generateDefaultFormData L (Some 0) (Some ''id'') w)"
  define w' where "w' = snd (generateDefaultFormData L (Some 0) (Some ''id'') w)"
  note defs = w_def L_def fd_def w'_def
  have v: "valid_ref w 0" by (simp add: w_def valid_ref_def)
  have v': "case Some 0 of None \<Rightarrow> True | Some d \<Rightarrow> valid_ref w d" using v by simp
  have eq: "generateDefaultFormData L (Some 0) (Some ''id'') w = (fd, w')"
    by (simp add: fd_def w'_def)
  note T = generateDefaultFormData_fills [OF v' eq]
  have k: "\<And>k. \<not> inheritedMember k \<Longrightarrow> obj_at w' fd k =
            (let supplied = (case Some 0 of None \<Rightarrow> None | Some d \<Rightarrow> obj_at w d k)
             in if supplied \<noteq> None \<and> supplied \<noteq> Some VUndefined \<and> supplied \<noteq> Some VNull
                then supplied
                else case find (\<lambda>f. field_id f = k) L of
                       None \<Rightarrow> supplied
                     | Some f \<Rightarrow> Some (emptyOrDefault f))"
    using T by blast
  have cov: "\<And>f. f \<in> set L \<Longrightarrow> \<not> inheritedMember (field_id f) \<Longrightarrow>
               field_id f \<in> dom (obj_at w' fd)"
    using T by blast
  have o: "\<not> inheritedMember ''n''" by (simp add: inheritedMember_def)
  have a: "obj_at w' fd ''a'' = Some (VStr ''x'')"
    by (subst k) (simp_all add: inheritedMember_def w_def L_def obj_at_def)
  have b: "obj_at w' fd ''b'' = Some (VBool False)"
    by (subst k)
      (simp_all add: inheritedMember_def w_def L_def obj_at_def emptyOrDefault_def nullish_def)
  have c: "obj_at w' fd ''c'' = Some (VNum (Fin 7))"
    by (subst k)
      (simp_all add: inheritedMember_def w_def L_def obj_at_def emptyOrDefault_def nullish_def)
  have n: "obj_at w' fd ''n'' = Some (VStr [])"
    by (subst k)
      (simp_all add: inheritedMember_def w_def L_def obj_at_def emptyOrDefault_def nullish_def)
  have i: "obj_at w' fd ''id'' = Some (VNum (Fin 9))"
    by (subst k) (simp_all add: inheritedMember_def w_def L_def obj_at_def)
  have d: "''n'' \<in> dom (obj_at w' fd)"
    using cov [of "L ! 3"] o by (simp add: L_def)
  show ?thesis
    using v o a b c n i d unfolding defs by (simp add: Let_def)
qed

subsection \<open>The invariant of the form data\<close>

text \<open>
  Claim C5: after the hook is initialised, and after every reducer action, every field
  id of the layout has an entry in the form data of the state.

  The code breaks this by the defect of claim C9: the guard of
  \<open>generateDefaultFormData\<close> takes an inherited member for the field's value. Below,
  the layout has the one field \<open>toString\<close> and no data is supplied; the form data has
  no entry for it after initialisation, and none after a reset. (For the field ids that
  are not names of inherited members the invariant holds: \<open>runHook_covers\<close>.)
\<close>

theorem hook_misses_inherited_name:
  "(case runHook
      [\<lparr>field_id = ''toString'', inputType = STRING, required = True, defaultValue = VUndefined\<rparr>]
      None None [] \<lparr>heap = [], calls = []\<rparr>
    of Inl e \<Rightarrow> False
     | Inr (state, w') \<Rightarrow> obj_at w' (formData state) ''toString'' = None) \<and>
   (case runHook
      [\<lparr>field_id = ''toString'', inputType = STRING, required = True, defaultValue = VUndefined\<rparr>]
      None None [CallReset] \<lparr>heap = [], calls = []\<rparr>
    of Inl e \<Rightarrow> False
     | Inr (state, w') \<Rightarrow> obj_at w' (formData state) ''toString'' = None)"
  by (simp add: runHook_def useFormControl_def reset_def generateDefaultFormData_def
      fillField_def set_prop_def get_prop_def obj_at_def new_obj_def inheritedMember_def
      nullish_def emptyOrDefault_def)


end
